theory Spec2Isabelle
  imports Main "HOL-Library.Word"
begin

section \<open>Text and bytes\<close>

text \<open>
  A Python \<^verbatim>\<open>str\<close> is a list of Unicode code points, a \<^verbatim>\<open>bytes\<close> object a list of
  8-bit words. The literals of the scripts are ASCII and are written \<open>py ''...''\<close>.
\<close>

type_synonym ustr = "nat list"
type_synonym byte = "8 word"

definition py :: "string \<Rightarrow> ustr" where
  "py s = map of_char s"

datatype exn =
    SerialException
  | ValueError
  | IndexError
  | UnicodeEncodeError
  | FileNotFoundError
  | PermissionError
  | SystemExit nat

text \<open>\<^verbatim>\<open>sub in s\<close> on strings.\<close>

fun starts_with :: "'a list \<Rightarrow> 'a list \<Rightarrow> bool" where
  "starts_with [] s = True"
| "starts_with (p # ps) [] = False"
| "starts_with (p # ps) (c # cs) = (p = c \<and> starts_with ps cs)"

fun contains :: "'a list \<Rightarrow> 'a list \<Rightarrow> bool" where
  "contains sub [] = (sub = [])"
| "contains sub (c # cs) = (starts_with sub (c # cs) \<or> contains sub cs)"

text \<open>
  \<^verbatim>\<open>s.split(sep)\<close>: the pieces between the non-overlapping occurrences of \<open>sep\<close>, found
  from the left; an empty separator raises.
\<close>

fun split_from :: "'a list \<Rightarrow> 'a list \<Rightarrow> 'a list \<Rightarrow> 'a list list" where
  "split_from sep cur [] = [rev cur]"
| "split_from sep cur (c # cs) =
     (if sep \<noteq> [] \<and> starts_with sep (c # cs)
      then rev cur # split_from sep [] (drop (length sep) (c # cs))
      else split_from sep (c # cur) cs)"

definition split :: "ustr \<Rightarrow> ustr \<Rightarrow> exn + ustr list" where
  "split s sep = (if sep = [] then Inl ValueError else Inr (split_from sep [] s))"

text \<open>\<^verbatim>\<open>xs[i]\<close> for a non-negative literal index.\<close>

definition index :: "'a list \<Rightarrow> nat \<Rightarrow> exn + 'a" where
  "index xs i = (if i < length xs then Inr (xs ! i) else Inl IndexError)"

text \<open>\<^verbatim>\<open>s.strip()\<close> removes the code points for which \<^verbatim>\<open>str.isspace\<close> holds.\<close>

definition isspace :: "nat \<Rightarrow> bool" where
  "isspace c \<longleftrightarrow>
     (9 \<le> c \<and> c \<le> 13) \<or> (28 \<le> c \<and> c \<le> 32) \<or> c = 0x85 \<or> c = 0xA0 \<or> c = 0x1680 \<or>
     (0x2000 \<le> c \<and> c \<le> 0x200A) \<or> c = 0x2028 \<or> c = 0x2029 \<or> c = 0x202F \<or>
     c = 0x205F \<or> c = 0x3000"

definition strip :: "ustr \<Rightarrow> ustr" where
  "strip s = rev (dropWhile isspace (rev (dropWhile isspace s)))"

text \<open>
  \<^verbatim>\<open>int(s)\<close> in base 10. The text is first stripped of whitespace, which for \<^verbatim>\<open>int\<close> is
  tab to carriage return, the space, and the whitespace of Unicode from U+007F on (not the
  separators U+001C to U+001F). Then come an optional sign and the digits, with single
  underscores between them. A digit is any decimal digit of Unicode (general category Nd;
  the table is the one of Unicode 14.0, which CPython 3.11 carries): they come in runs of
  ten, and \<open>decimal_runs\<close> holds the code point of each zero. When the interpreter limits the
  length of integer texts (\<^verbatim>\<open>sys.get_int_max_str_digits()\<close>, 4300 unless configured, 0 for no
  limit), a text with more digits raises as an ill-formed one does.
\<close>

definition decimal_runs :: "nat list" where
  "decimal_runs =
     [48, 1632, 1776, 1984, 2406, 2534, 2662, 2790, 2918, 3046, 3174, 3302, 3430, 3558,
      3664, 3792, 3872, 4160, 4240, 6112, 6160, 6470, 6608, 6784, 6800, 6992, 7088, 7232,
      7248, 42528, 43216, 43264, 43472, 43504, 43600, 44016, 65296, 66720, 68912, 69734,
      69872, 69942, 70096, 70384, 70736, 70864, 71248, 71360, 71472, 71904, 72016, 72784,
      73040, 73120, 92768, 92864, 93008, 120782, 120792, 120802, 120812, 120822, 123200,
      123632, 125264, 130032]"

definition decimal :: "nat \<Rightarrow> nat option" where
  "decimal c =
     (case filter (\<lambda>zero. zero \<le> c \<and> c < zero + 10) decimal_runs of
        [] \<Rightarrow> None
      | zero # _ \<Rightarrow> Some (c - zero))"

definition int_space :: "nat \<Rightarrow> bool" where
  "int_space c \<longleftrightarrow> (9 \<le> c \<and> c \<le> 13) \<or> c = 32 \<or> (127 \<le> c \<and> isspace c)"

fun int_digits :: "bool \<Rightarrow> nat \<Rightarrow> ustr \<Rightarrow> nat option" where
  "int_digits need acc [] = (if need then None else Some acc)"
| "int_digits need acc (c # cs) =
     (case decimal c of
        Some d \<Rightarrow> int_digits False (acc * 10 + d) cs
      | None \<Rightarrow> if c = 95 \<and> \<not> need then int_digits True acc cs else None)"

definition int_unsigned :: "nat \<Rightarrow> ustr \<Rightarrow> nat option" where
  "int_unsigned limit s =
     (if limit \<noteq> 0 \<and> limit < length (filter (\<lambda>c. decimal c \<noteq> None) s) then None
      else int_digits True 0 s)"

definition py_int :: "nat \<Rightarrow> ustr \<Rightarrow> exn + int" where
  "py_int limit s =
     (case rev (dropWhile int_space (rev (dropWhile int_space s))) of
        [] \<Rightarrow> Inl ValueError
      | c # cs \<Rightarrow>
          if c = 45 then (case int_unsigned limit cs of None \<Rightarrow> Inl ValueError | Some n \<Rightarrow> Inr (- int n))
          else if c = 43 then (case int_unsigned limit cs of None \<Rightarrow> Inl ValueError | Some n \<Rightarrow> Inr (int n))
          else (case int_unsigned limit (c # cs) of None \<Rightarrow> Inl ValueError | Some n \<Rightarrow> Inr (int n)))"

subsection \<open>UTF-8\<close>

text \<open>
  \<^verbatim>\<open>bytes.decode('utf-8', errors=...)\<close>. An ill-formed sequence is cut at the first byte
  that cannot continue it; \<^verbatim>\<open>'ignore'\<close> drops the cut part, \<^verbatim>\<open>'replace'\<close> puts U+FFFD
  in its place. A sequence that the end of the input truncates is one error.
\<close>

datatype errors = Ignore | Replace

definition on_error :: "errors \<Rightarrow> ustr" where
  "on_error h = (case h of Ignore \<Rightarrow> [] | Replace \<Rightarrow> [0xFFFD])"

definition is_cont :: "nat \<Rightarrow> bool" where
  "is_cont b \<longleftrightarrow> 0x80 \<le> b \<and> b \<le> 0xBF"

definition second_ok :: "nat \<Rightarrow> nat \<Rightarrow> bool" where
  "second_ok b b1 \<longleftrightarrow>
     is_cont b1 \<and>
     (b = 0xE0 \<longrightarrow> 0xA0 \<le> b1) \<and> (b = 0xED \<longrightarrow> b1 < 0xA0) \<and>
     (b = 0xF0 \<longrightarrow> 0x90 \<le> b1) \<and> (b = 0xF4 \<longrightarrow> b1 < 0x90)"

fun utf8_decode :: "errors \<Rightarrow> nat list \<Rightarrow> ustr" where
  "utf8_decode h [] = []"
| "utf8_decode h (b # bs) =
     (if b < 0x80 then b # utf8_decode h bs
      else if b < 0xC2 then on_error h @ utf8_decode h bs
      else if b < 0xE0 then
        (case bs of
           [] \<Rightarrow> on_error h
         | b1 # r1 \<Rightarrow>
             if is_cont b1 then ((b - 0xC0) * 64 + (b1 - 0x80)) # utf8_decode h r1
             else on_error h @ utf8_decode h (b1 # r1))
      else if b < 0xF0 then
        (case bs of
           [] \<Rightarrow> on_error h
         | b1 # r1 \<Rightarrow>
             if \<not> second_ok b b1 then on_error h @ utf8_decode h (b1 # r1)
             else (case r1 of
                     [] \<Rightarrow> on_error h
                   | b2 # r2 \<Rightarrow>
                       if is_cont b2
                       then ((b - 0xE0) * 4096 + (b1 - 0x80) * 64 + (b2 - 0x80)) # utf8_decode h r2
                       else on_error h @ utf8_decode h (b2 # r2)))
      else if b < 0xF5 then
        (case bs of
           [] \<Rightarrow> on_error h
         | b1 # r1 \<Rightarrow>
             if \<not> second_ok b b1 then on_error h @ utf8_decode h (b1 # r1)
             else (case r1 of
                     [] \<Rightarrow> on_error h
                   | b2 # r2 \<Rightarrow>
                       if \<not> is_cont b2 then on_error h @ utf8_decode h (b2 # r2)
                       else (case r2 of
                               [] \<Rightarrow> on_error h
                             | b3 # r3 \<Rightarrow>
                                 if is_cont b3
                                 then ((b - 0xF0) * 262144 + (b1 - 0x80) * 4096 +
                                       (b2 - 0x80) * 64 + (b3 - 0x80)) # utf8_decode h r3
                                 else on_error h @ utf8_decode h (b3 # r3))))
      else on_error h @ utf8_decode h bs)"

definition decode :: "errors \<Rightarrow> byte list \<Rightarrow> ustr" where
  "decode h bs = utf8_decode h (map unat bs)"

text \<open>\<^verbatim>\<open>str.encode()\<close>: UTF-8; a surrogate code point cannot be encoded.\<close>

fun utf8_encode :: "ustr \<Rightarrow> exn + nat list" where
  "utf8_encode [] = Inr []"
| "utf8_encode (c # cs) =
     (if (0xD800 \<le> c \<and> c \<le> 0xDFFF) \<or> 0x110000 \<le> c then Inl UnicodeEncodeError
      else (case utf8_encode cs of
              Inl e \<Rightarrow> Inl e
            | Inr r \<Rightarrow>
                Inr ((if c < 0x80 then [c]
                      else if c < 0x800 then [0xC0 + c div 64, 0x80 + c mod 64]
                      else if c < 0x10000
                        then [0xE0 + c div 4096, 0x80 + (c div 64) mod 64, 0x80 + c mod 64]
                      else [0xF0 + c div 262144, 0x80 + (c div 4096) mod 64,
                            0x80 + (c div 64) mod 64, 0x80 + c mod 64]) @ r)))"

definition encode :: "ustr \<Rightarrow> exn + byte list" where
  "encode s = (case utf8_encode s of Inl e \<Rightarrow> Inl e | Inr bs \<Rightarrow> Inr (map of_nat bs))"

section \<open>The host: clock, serial device, log\<close>

text \<open>
  Time is the clock of the host in milliseconds; only \<^verbatim>\<open>time.sleep\<close> advances it. The
  serial device delivers the bytes of \<open>rx\<close> at their arrival times and raises on every
  operation at the instants where \<open>fault\<close> holds. Every effect is appended to the log with
  the time it happened at. Of the console output the model keeps the signal report of the
  one-shot script and the status table of the persistent one. The negotiation process is
  \<open>alive\<close> or not; it dies of SIGTERM when \<open>heeds_term\<close>, always of SIGKILL, and signalling it
  raises when \<open>signal_denied\<close>. \<open>last_signal_info\<close> and \<open>tmp_chat_path\<close> are the globals of the
  persistent script, \<open>int_max_str_digits\<close> is the limit the interpreter puts on integer texts.
\<close>

datatype handle = Ser | SigSer

datatype quality = NoSignal | Poor | Fair | Good | Excellent | Unknown | Error exn

datatype icon = Cross | Warning | Gear | Check | CheckCheck | Question

type_synonym signal_info = "int option \<times> quality \<times> icon"

datatype signal_report = NoSignalDetected | WeakSignal int | SignalGood int | CouldNotParse

datatype sig = SIGTERM | SIGKILL

datatype event =
    Open handle
  | Close handle
  | Write "byte list"
  | Read "byte list"
  | Sleep nat
  | Returned ustr
  | Report signal_report
  | Run "ustr list"
  | Popen "ustr list"
  | Signal sig
  | Create ustr
  | Remove ustr
  | SetStop
  | StatusHeader
  | StatusLine ustr ustr signal_info ustr nat nat bool "ustr option"

record world =
  clock :: nat
  log :: "(nat \<times> event) list"
  rx :: "(nat \<times> byte list) list"
  fault :: "nat \<Rightarrow> bool"
  ser_open :: bool
  sig_open :: bool
  files :: "ustr set"
  alive :: bool
  heeds_term :: bool
  signal_denied :: bool
  last_signal_info :: signal_info
  tmp_chat_path :: "ustr option"
  int_max_str_digits :: nat

definition emit :: "event \<Rightarrow> world \<Rightarrow> world" where
  "emit e w = w\<lparr>log := log w @ [(clock w, e)]\<rparr>"

definition sleep :: "nat \<Rightarrow> world \<Rightarrow> world" where
  "sleep ms w = (emit (Sleep ms) w)\<lparr>clock := clock w + ms\<rparr>"

definition bind ::
  "(exn + 'a) \<times> world \<Rightarrow> ('a \<Rightarrow> world \<Rightarrow> (exn + 'b) \<times> world) \<Rightarrow> (exn + 'b) \<times> world" where
  "bind m f = (case m of (Inl e, w) \<Rightarrow> (Inl e, w) | (Inr a, w) \<Rightarrow> f a w)"

subsection \<open>The serial port\<close>

definition set_open :: "handle \<Rightarrow> bool \<Rightarrow> world \<Rightarrow> world" where
  "set_open h b w = (case h of Ser \<Rightarrow> w\<lparr>ser_open := b\<rparr> | SigSer \<Rightarrow> w\<lparr>sig_open := b\<rparr>)"

definition serial_open :: "handle \<Rightarrow> world \<Rightarrow> (exn + unit) \<times> world" where
  "serial_open h w =
     (if fault w (clock w) then (Inl SerialException, w)
      else (Inr (), set_open h True (emit (Open h) w)))"

definition serial_close :: "handle \<Rightarrow> world \<Rightarrow> world" where
  "serial_close h w = set_open h False (emit (Close h) w)"

definition serial_write :: "byte list \<Rightarrow> world \<Rightarrow> (exn + unit) \<times> world" where
  "serial_write bs w =
     (if fault w (clock w) then (Inl SerialException, w)
      else (Inr (), emit (Write bs) w))"

definition arrived :: "world \<Rightarrow> byte list" where
  "arrived w = concat (map snd (filter (\<lambda>(t, bs). t \<le> clock w) (rx w)))"

definition in_waiting :: "world \<Rightarrow> exn + nat" where
  "in_waiting w = (if fault w (clock w) then Inl SerialException else Inr (length (arrived w)))"

definition serial_read :: "nat \<Rightarrow> world \<Rightarrow> (exn + byte list) \<times> world" where
  "serial_read n w =
     (if fault w (clock w) then (Inl SerialException, w)
      else
        (let later = filter (\<lambda>(t, bs). \<not> t \<le> clock w) (rx w);
             got = take n (arrived w);
             left = drop n (arrived w)
         in (Inr got,
             emit (Read got) (w\<lparr>rx := (if left = [] then later else (clock w, left) # later)\<rparr>))))"

section \<open>The AT channel\<close>

text \<open>
  \<^verbatim>\<open>send_at_command(ser, command, timeout)\<close>, the same in both scripts. The timeout is in
  milliseconds. \<open>Returned\<close> marks in the log the value handed back to the caller.
\<close>

function read_response :: "nat \<Rightarrow> nat \<Rightarrow> ustr \<Rightarrow> world \<Rightarrow> (exn + ustr) \<times> world" where
  "read_response start_time timeout response w =
     (if clock w - start_time < timeout then
        (case in_waiting w of
           Inl e \<Rightarrow> (Inl e, w)
         | Inr n \<Rightarrow>
             if n \<noteq> 0 then
               (case serial_read n w of
                  (Inl e, w1) \<Rightarrow> (Inl e, w1)
                | (Inr chunk, w1) \<Rightarrow>
                    (let response' = response @ decode Ignore chunk in
                     if contains (py ''OK'') response' \<or> contains (py ''ERROR'') response'
                     then (Inr response', w1)
                     else read_response start_time timeout response' (sleep 100 w1)))
             else read_response start_time timeout response (sleep 100 w))
      else (Inr response, w))"
  by pat_completeness auto
termination
  by (relation "measure (\<lambda>(s, t, r, w). s + t - clock w)")
     (auto simp: serial_read_def sleep_def emit_def Let_def split: if_splits)

declare read_response.simps [simp del]

definition crlf :: ustr where
  "crlf = [13, 10]"

definition send_at_command :: "ustr \<Rightarrow> nat \<Rightarrow> world \<Rightarrow> (exn + ustr) \<times> world" where
  "send_at_command command timeout w =
     (case encode (command @ crlf) of
        Inl e \<Rightarrow> (Inl e, w)
      | Inr bs \<Rightarrow>
          bind (serial_write bs w) (\<lambda>_ w1.
            (let w2 = sleep 200 w1 in
             bind (read_response (clock w2) timeout [] w2) (\<lambda>response w3.
               (Inr (strip response), emit (Returned (strip response)) w3)))))"

section \<open>Signal strength (persistent script)\<close>

definition and_then :: "exn + 'a \<Rightarrow> ('a \<Rightarrow> exn + 'b) \<Rightarrow> exn + 'b" where
  "and_then m f = (case m of Inl e \<Rightarrow> Inl e | Inr a \<Rightarrow> f a)"

text \<open>\<^verbatim>\<open>int(response.split("+CSQ:")[1].split(",")[0].strip())\<close>\<close>

definition csq_field :: "nat \<Rightarrow> ustr \<Rightarrow> exn + int" where
  "csq_field limit response =
     and_then (split response (py ''+CSQ:'')) (\<lambda>parts.
     and_then (index parts 1) (\<lambda>after.
     and_then (split after (py '','')) (\<lambda>fields.
     and_then (index fields 0) (\<lambda>field. py_int limit (strip field)))))"

text \<open>The part of \<^verbatim>\<open>get_signal_strength_at_init\<close> after the port is closed.\<close>

definition read_signal :: "nat \<Rightarrow> ustr \<Rightarrow> exn + signal_info" where
  "read_signal limit response =
     (if contains (py ''+CSQ:'') response then
        and_then (csq_field limit response) (\<lambda>rssi.
          Inr (if rssi = 99 then (Some 99, NoSignal, Cross)
               else if rssi < 10 then (Some rssi, Poor, Warning)
               else if rssi < 15 then (Some rssi, Fair, Gear)
               else if rssi < 20 then (Some rssi, Good, Check)
               else (Some rssi, Excellent, CheckCheck)))
      else Inr (None, Unknown, Question))"

text \<open>
  \<^verbatim>\<open>get_signal_strength_at_init(device)\<close>: the body of the \<^verbatim>\<open>try\<close> and its handler, which
  turns every exception into the tuple \<^verbatim>\<open>(None, f"Error: {e}", "?")\<close>.
\<close>

definition csq_exchange :: "world \<Rightarrow> (exn + ustr) \<times> world" where
  "csq_exchange w =
     bind (serial_open SigSer w) (\<lambda>_ w1. send_at_command (py ''AT+CSQ'') 5000 w1)"

definition signal_query :: "world \<Rightarrow> (exn + signal_info) \<times> world" where
  "signal_query w =
     bind (csq_exchange w) (\<lambda>response w2.
       (read_signal (int_max_str_digits w2) response, serial_close SigSer w2))"

definition get_signal_strength_at_init :: "world \<Rightarrow> signal_info \<times> world" where
  "get_signal_strength_at_init w =
     (case signal_query w of
        (Inr info, w') \<Rightarrow> (info, w')
      | (Inl e, w') \<Rightarrow> ((None, Error e, Question), w'))"

section \<open>Bring-up\<close>

text \<open>
  The registration wait of \<^verbatim>\<open>initialize_modem\<close>. The two scripts differ in the pause after
  an unsuccessful poll only: \<^verbatim>\<open>time.sleep(2)\<close> in the one-shot script, \<^verbatim>\<open>time.sleep(5)\<close> in the
  persistent one. The result is whether the loop was left by \<^verbatim>\<open>break\<close>.
\<close>

definition registered :: "ustr \<Rightarrow> bool" where
  "registered response \<longleftrightarrow>
     contains (py ''+CREG: 0,1'') response \<or> contains (py ''+CREG: 0,5'') response"

lemma read_response_clock:
  "clock w \<le> clock (snd (read_response start_time timeout response w))"
proof (induction start_time timeout response w rule: read_response.induct)
  case (1 s t r w)
  show ?case
  proof (cases "clock w - s < t")
    case False
    then show ?thesis by (subst read_response.simps) simp
  next
    case live: True
    show ?thesis
    proof (cases "in_waiting w")
      case (Inl e)
      with live show ?thesis by (subst read_response.simps) simp
    next
      case (Inr n)
      show ?thesis
      proof (cases "n = 0")
        case True
        with "1.IH"(2) [OF live Inr] live Inr show ?thesis
          by (subst read_response.simps) (simp add: sleep_def emit_def)
      next
        case False
        obtain x y where sr: "(x, y) = serial_read n w" by (cases "serial_read n w") simp
        then have cy: "clock y = clock w"
          by (auto simp: serial_read_def emit_def Let_def split: if_splits)
        show ?thesis
        proof (cases x)
          case (Inl e)
          with live Inr False sr [symmetric] cy show ?thesis
            by (subst read_response.simps) simp
        next
          case chunk: (Inr ba)
          show ?thesis
          proof (cases "contains (py ''OK'') (r @ decode Ignore ba) \<or>
                        contains (py ''ERROR'') (r @ decode Ignore ba)")
            case True
            with live Inr False sr [symmetric] cy chunk show ?thesis
              by (subst read_response.simps) (simp add: Let_def)
          next
            case quiet: False
            from "1.IH"(1) [OF live Inr False sr chunk refl quiet] cy
            have "clock w \<le> clock (snd (read_response s t (r @ decode Ignore ba) (sleep 100 y)))"
              by (simp add: sleep_def emit_def)
            with live Inr False sr [symmetric] chunk quiet show ?thesis
              by (subst read_response.simps) (simp add: Let_def)
          qed
        qed
      qed
    qed
  qed
qed

lemma send_at_command_clock:
  assumes "send_at_command command timeout w = (Inr response, w')"
  shows "clock w < clock w'"
proof -
  from assms obtain bs where enc: "encode (command @ crlf) = Inr bs"
    by (cases "encode (command @ crlf)") (auto simp: send_at_command_def)
  from assms enc have nf: "\<not> fault w (clock w)"
    by (auto simp: send_at_command_def bind_def serial_write_def split: if_splits)
  define w2 where "w2 = sleep 200 (emit (Write bs) w)"
  have c2: "clock w2 = clock w + 200" by (simp add: w2_def sleep_def emit_def)
  from assms enc nf obtain x where
    "read_response (clock w2) timeout [] w2 = (Inr x, w'\<lparr>log := butlast (log w')\<rparr>) \<or>
     clock (snd (read_response (clock w2) timeout [] w2)) = clock w'"
    by (cases "read_response (clock w2) timeout [] w2")
       (auto simp: send_at_command_def bind_def serial_write_def Let_def w2_def emit_def
             split: sum.splits)
  then have "clock (snd (read_response (clock w2) timeout [] w2)) = clock w'"
    using assms enc nf
    by (cases "read_response (clock w2) timeout [] w2")
       (auto simp: send_at_command_def bind_def serial_write_def Let_def w2_def emit_def
             split: sum.splits)
  with read_response_clock [of w2 "clock w2" timeout "[]"] c2 show ?thesis by simp
qed

function reg_wait :: "nat \<Rightarrow> nat \<Rightarrow> nat \<Rightarrow> world \<Rightarrow> (exn + bool) \<times> world" where
  "reg_wait pause start_time max_wait w =
     (if clock w - start_time < max_wait then
        (case send_at_command (py ''AT+CREG?'') 5000 w of
           (Inl e, w1) \<Rightarrow> (Inl e, w1)
         | (Inr response, w1) \<Rightarrow>
             if registered response then (Inr True, w1)
             else reg_wait pause start_time max_wait (sleep pause w1))
      else (Inr False, w))"
  by pat_completeness auto
termination
  by (relation "measure (\<lambda>(p, s, m, w). s + m - clock w)")
     (auto simp: sleep_def emit_def dest!: send_at_command_clock [OF sym])

declare reg_wait.simps [simp del]

text \<open>The loop \<^verbatim>\<open>for i in range(10)\<close> that confirms the attachment.\<close>

definition attached :: "ustr \<Rightarrow> bool" where
  "attached response \<longleftrightarrow> contains (py ''+CGATT: 1'') response"

fun attach_poll :: "nat \<Rightarrow> world \<Rightarrow> (exn + bool) \<times> world" where
  "attach_poll 0 w = (Inr False, w)"
| "attach_poll (Suc n) w =
     (case send_at_command (py ''AT+CGATT?'') 5000 w of
        (Inl e, w1) \<Rightarrow> (Inl e, w1)
      | (Inr response, w1) \<Rightarrow>
          if attached response then (Inr True, w1)
          else attach_poll n (sleep 2000 w1))"

subsection \<open>The one-shot script\<close>

text \<open>The message about the signal quality; the bare \<^verbatim>\<open>except\<close> takes every exception.\<close>

definition report_signal :: "ustr \<Rightarrow> world \<Rightarrow> world" where
  "report_signal response w =
     (if contains (py ''+CSQ:'') response then
        (case csq_field (int_max_str_digits w) response of
           Inl e \<Rightarrow> emit (Report CouldNotParse) w
         | Inr rssi \<Rightarrow>
             emit (Report (if rssi = 99 then NoSignalDetected
                           else if rssi < 10 then WeakSignal rssi
                           else SignalGood rssi)) w)
      else w)"

text \<open>From the attach confirmation to the end of the \<^verbatim>\<open>try\<close> block.\<close>

definition confirm_attach :: "world \<Rightarrow> (exn + bool) \<times> world" where
  "confirm_attach w =
     bind (attach_poll 10 w) (\<lambda>is_attached w1.
       if \<not> is_attached then (Inr False, serial_close Ser w1)
       else bind (send_at_command (py ''AT+COPS?'') 5000 w1) (\<lambda>_ w2.
              (Inr True, sleep 1000 (serial_close Ser w2))))"

definition greet :: "world \<Rightarrow> (exn + ustr) \<times> world" where
  "greet w =
     bind (serial_open Ser w) (\<lambda>_ w1.
     bind (send_at_command (py ''ATZ'') 5000 (sleep 1000 w1)) (\<lambda>_ w2.
     bind (send_at_command (py ''ATE0'') 5000 w2) (\<lambda>_ w3.
       send_at_command (py ''AT+CSQ'') 5000 w3)))"

definition bring_up :: "nat \<Rightarrow> world \<Rightarrow> (exn + bool) \<times> world" where
  "bring_up max_wait w =
     bind (greet w) (\<lambda>response w4.
     bind (reg_wait 2000 (clock w4) max_wait (report_signal response w4)) (\<lambda>is_registered w5.
       if \<not> is_registered then (Inr False, serial_close Ser w5)
       else bind (send_at_command (py ''AT+CGATT=1'') 30000 w5) (\<lambda>_ w6.
              confirm_attach w6)))"

text \<open>\<^verbatim>\<open>initialize_modem(device, max_wait)\<close>: the handler answers \<^verbatim>\<open>False\<close> to every exception.\<close>

definition initialize_modem :: "nat \<Rightarrow> world \<Rightarrow> bool \<times> world" where
  "initialize_modem max_wait w =
     (case bring_up max_wait w of
        (Inr ok, w') \<Rightarrow> (ok, w')
      | (Inl e, w') \<Rightarrow> (False, w'))"

subsection \<open>The persistent script\<close>

text \<open>
  Both exits of the attach loop close the port before they return, the one inside the loop
  with \<^verbatim>\<open>True\<close>, the one after it with \<^verbatim>\<open>False\<close>.
\<close>

definition service_confirm_attach :: "world \<Rightarrow> (exn + bool) \<times> world" where
  "service_confirm_attach w =
     bind (attach_poll 10 w) (\<lambda>is_attached w1. (Inr is_attached, serial_close Ser w1))"

definition capture_signal :: "world \<Rightarrow> world" where
  "capture_signal w =
     (case get_signal_strength_at_init w of (info, w') \<Rightarrow> w'\<lparr>last_signal_info := info\<rparr>)"

definition service_greet :: "world \<Rightarrow> (exn + unit) \<times> world" where
  "service_greet w =
     bind (serial_open Ser w) (\<lambda>_ w1.
     bind (send_at_command (py ''ATZ'') 5000 (sleep 1000 w1)) (\<lambda>_ w2.
     bind (send_at_command (py ''ATE0'') 5000 w2) (\<lambda>_ w3.
       (Inr (), capture_signal w3))))"

definition service_bring_up :: "nat \<Rightarrow> world \<Rightarrow> (exn + bool) \<times> world" where
  "service_bring_up max_wait w =
     bind (service_greet w) (\<lambda>_ w4.
     bind (reg_wait 5000 (clock w4) max_wait w4) (\<lambda>is_registered w5.
       if \<not> is_registered then (Inr False, serial_close Ser w5)
       else bind (send_at_command (py ''AT+COPS?'') 5000 w5) (\<lambda>_ w6.
            bind (send_at_command (py ''AT+CGATT=1'') 30000 w6) (\<lambda>_ w7.
              service_confirm_attach w7))))"

definition service_initialize_modem :: "nat \<Rightarrow> world \<Rightarrow> bool \<times> world" where
  "service_initialize_modem max_wait w =
     (case service_bring_up max_wait w of
        (Inr ok, w') \<Rightarrow> (ok, w')
      | (Inl e, w') \<Rightarrow> (False, w'))"

section \<open>Negotiation and teardown\<close>

text \<open>
  \<^verbatim>\<open>subprocess.run\<close> of a command whose result the script does not use, and the calls on the
  handle of the negotiation process. \<^verbatim>\<open>os.remove\<close> raises on a file that is not there.
\<close>

definition run :: "ustr list \<Rightarrow> world \<Rightarrow> world" where
  "run cmd w = emit (Run cmd) w"

definition send_signal :: "sig \<Rightarrow> world \<Rightarrow> (exn + unit) \<times> world" where
  "send_signal s w =
     (if signal_denied w then (Inl PermissionError, w)
      else (Inr (), (emit (Signal s) w)
              \<lparr>alive := (case s of SIGTERM \<Rightarrow> alive w \<and> \<not> heeds_term w | SIGKILL \<Rightarrow> False)\<rparr>))"

definition os_remove :: "ustr \<Rightarrow> world \<Rightarrow> (exn + unit) \<times> world" where
  "os_remove path w =
     (if path \<in> files w then (Inr (), (emit (Remove path) w)\<lparr>files := files w - {path}\<rparr>)
      else (Inl FileNotFoundError, w))"

definition create_file :: "ustr \<Rightarrow> world \<Rightarrow> world" where
  "create_file path w = (emit (Create path) w)\<lparr>files := insert path (files w)\<rparr>"

definition basename :: "ustr \<Rightarrow> ustr" where
  "basename path = rev (takeWhile (\<lambda>c. c \<noteq> 47) (rev path))"

definition pkill_pppd :: "ustr list" where
  "pkill_pppd = [py ''sudo'', py ''pkill'', py ''-f'', py ''pppd'']"

definition poff_all :: "ustr list" where
  "poff_all = [py ''sudo'', py ''poff'', py ''-a'']"

definition rm_lock :: "ustr \<Rightarrow> ustr list" where
  "rm_lock device = [py ''sudo'', py ''rm'', py ''-f'', py ''/var/lock/LCK..'' @ basename device]"

text \<open>
  The \<^verbatim>\<open>try\<close> block of \<^verbatim>\<open>cleanup_ppp\<close>: SIGTERM, two seconds, SIGKILL to a process that still
  runs; its handler takes every exception.
\<close>

definition stop_process :: "world \<Rightarrow> world" where
  "stop_process w =
     (if alive w then
        (case send_signal SIGTERM w of
           (Inl e, w1) \<Rightarrow> w1
         | (Inr _, w1) \<Rightarrow>
             (let w2 = sleep 2000 w1 in
              if alive w2 then snd (send_signal SIGKILL w2) else w2))
      else w)"

text \<open>
  \<^verbatim>\<open>cleanup_ppp(process, tmp_chat_path, stop_event)\<close>; \<open>process\<close> and \<open>stop_event\<close> say whether the
  argument is an object or \<^verbatim>\<open>None\<close>.
\<close>

definition remove_chat :: "ustr option \<Rightarrow> world \<Rightarrow> (exn + unit) \<times> world" where
  "remove_chat path w =
     (case path of
        None \<Rightarrow> (Inr (), w)
      | Some p \<Rightarrow> if p \<noteq> [] \<and> p \<in> files w then os_remove p w else (Inr (), w))"

definition cleanup_ppp :: "bool \<Rightarrow> ustr option \<Rightarrow> bool \<Rightarrow> world \<Rightarrow> (exn + unit) \<times> world" where
  "cleanup_ppp process path stop_event w =
     (let w1 = (if stop_event then emit SetStop w else w);
          w2 = (if process then stop_process w1 else w1);
          w3 = run (rm_lock (py ''/dev/ttyS0'')) (run pkill_pppd (run poff_all w2))
      in remove_chat path w3)"

text \<open>
  What one \<^verbatim>\<open>output_queue.get(timeout=0.5)\<close> of the wait gives: a line, after some
  milliseconds, or \<^verbatim>\<open>queue.Empty\<close> after 500, with whether the process has exited by then.
  When the list is used up the queue stays empty and the process runs on.
\<close>

datatype obs = Line nat ustr | Empty bool

definition wait_queue :: "nat \<Rightarrow> world \<Rightarrow> world" where
  "wait_queue ms w = w\<lparr>clock := clock w + ms\<rparr>"

function monitor ::
  "nat \<Rightarrow> obs list \<Rightarrow> bool \<Rightarrow> bool \<Rightarrow> world \<Rightarrow> (bool \<times> bool \<times> obs list) \<times> world" where
  "monitor deadline queue connected ip_assigned w =
     (if clock w < deadline then
        (case queue of
           [] \<Rightarrow> monitor deadline [] connected ip_assigned (wait_queue 500 w)
         | Empty exited # rest \<Rightarrow>
             if exited then ((connected, ip_assigned, rest), (wait_queue 500 w)\<lparr>alive := False\<rparr>)
             else monitor deadline rest connected ip_assigned (wait_queue 500 w)
         | Line ms line # rest \<Rightarrow>
             (let w1 = wait_queue ms w;
                  connected' = (connected \<or> contains (py ''Connect: ppp0'') line) in
              if contains (py ''local  IP address'') line \<or> contains (py ''remote IP address'') line
              then ((connected', True, rest), w1)
              else if contains (py ''LCP: timeout'') line \<or> contains (py ''LCP terminated'') line
              then ((connected', ip_assigned, rest), w1)
              else if contains (py ''Connect script failed'') line
              then ((connected', ip_assigned, rest), w1)
              else monitor deadline rest connected' ip_assigned w1))
      else ((connected, ip_assigned, queue), w))"
  by pat_completeness auto
termination
  by (relation "(\<lambda>(d, q, c, i, w). d - clock w) <*mlex*> measure (\<lambda>(d, q, c, i, w). length q)")
     (auto simp: wait_queue_def wf_mlex mlex_prod_def)

declare monitor.simps [simp del]

text \<open>
  \<^verbatim>\<open>start_ppp\<close> of the one-shot script after the bring-up: \<open>path\<close> is the name the temporary
  file gets, \<open>ping\<close> says whether the first ping was answered. The result is the path when
  the link is up, \<^verbatim>\<open>None\<close> for \<^verbatim>\<open>(None, None, None)\<close>.
\<close>

definition ppp_cmd :: "ustr \<Rightarrow> ustr \<Rightarrow> ustr \<Rightarrow> ustr list" where
  "ppp_cmd device baud path =
     [py ''sudo'', py ''pppd'', device, baud, py ''connect'', py ''chat -v -f '' @ path,
      py ''noauth'', py ''defaultroute'', py ''replacedefaultroute'', py ''usepeerdns'',
      py ''persist'', py ''maxfail'', py ''3'', py ''holdoff'', py ''10'', py ''nocrtscts'',
      py ''local'', py ''debug'', py ''nodetach'']"

definition ping_cmd :: "string \<Rightarrow> string \<Rightarrow> string \<Rightarrow> ustr list" where
  "ping_cmd count wait host =
     [py ''ping'', py ''-I'', py ''ppp0'', py ''-c'', py count, py ''-W'', py wait, py host]"

definition diagnostics :: "bool \<Rightarrow> world \<Rightarrow> world" where
  "diagnostics ping w =
     (let w1 = run [py ''ifconfig'', py ''ppp0''] w;
          w2 = run [py ''ip'', py ''route'', py ''show''] w1;
          w3 = run [py ''cat'', py ''/etc/resolv.conf''] w2;
          w4 = run (ping_cmd ''3'' ''5'' ''8.8.8.8'') w3
      in if ping then run (ping_cmd ''2'' ''5'' ''google.com'') w4 else w4)"

definition negotiate ::
  "ustr \<Rightarrow> ustr \<Rightarrow> ustr \<Rightarrow> obs list \<Rightarrow> bool \<Rightarrow> world \<Rightarrow> (exn + ustr option) \<times> world" where
  "negotiate device baud path queue ping w =
     (let w1 = create_file path w;
          w2 = run pkill_pppd w1;
          w3 = sleep 1000 w2;
          w4 = run (rm_lock device) w3;
          w5 = (emit (Popen (ppp_cmd device baud path)) w4)\<lparr>alive := True\<rparr>
      in case monitor (clock w5 + 90000) queue False False w5 of
           ((connected, ip_assigned, rest), w6) \<Rightarrow>
             if \<not> connected \<or> \<not> ip_assigned
             then bind (cleanup_ppp True (Some path) False (emit SetStop w6)) (\<lambda>_ w7. (Inr None, w7))
             else (Inr (Some path), diagnostics ping (sleep 8000 w6)))"

definition start_ppp ::
  "ustr \<Rightarrow> ustr \<Rightarrow> ustr \<Rightarrow> obs list \<Rightarrow> bool \<Rightarrow> world \<Rightarrow> (exn + ustr option) \<times> world" where
  "start_ppp device baud path queue ping w =
     (case initialize_modem 60000 w of
        (ok, w1) \<Rightarrow> if \<not> ok then (Inr None, w1) else negotiate device baud path queue ping w1)"

text \<open>
  The main program of the one-shot script: the link is kept for \<open>kept\<close> milliseconds, 60000
  unless the user interrupts the sleep, and \<^verbatim>\<open>finally\<close> tears it down.
\<close>

definition main :: "ustr \<Rightarrow> obs list \<Rightarrow> bool \<Rightarrow> nat \<Rightarrow> world \<Rightarrow> (exn + bool) \<times> world" where
  "main path queue ping kept w =
     bind (start_ppp (py ''/dev/ttyS0'') (py ''9600'') path queue ping w) (\<lambda>started w1.
       case started of
         None \<Rightarrow> (Inr False, w1)
       | Some chat_file \<Rightarrow>
           bind (cleanup_ppp True (Some chat_file) True (sleep (min kept 60000) w1)) (\<lambda>_ w2.
             (Inr True, w2)))"

subsection \<open>The persistent script\<close>

definition cleanup_connection :: "world \<Rightarrow> (exn + unit) \<times> world" where
  "cleanup_connection w = remove_chat (tmp_chat_path w) (run pkill_pppd (run poff_all w))"

definition signal_handler :: "world \<Rightarrow> (exn + unit) \<times> world" where
  "signal_handler w = bind (cleanup_connection w) (\<lambda>_ w1. (Inl (SystemExit 0), w1))"

definition service_ppp_cmd :: "ustr \<Rightarrow> ustr \<Rightarrow> ustr list" where
  "service_ppp_cmd device path =
     [py ''sudo'', py ''pppd'', device, py ''9600'', py ''connect'', py ''chat -v -f '' @ path,
      py ''noauth'', py ''defaultroute'', py ''replacedefaultroute'', py ''usepeerdns'',
      py ''persist'', py ''maxfail'', py ''0'', py ''holdoff'', py ''30'', py ''nocrtscts'',
      py ''local'', py ''logfile'', py ''/var/log/pppd.log'']"

text \<open>
  The wait \<^verbatim>\<open>for i in range(30)\<close>: \<open>ups\<close> holds, poll by poll, whether \<^verbatim>\<open>ifconfig ppp0\<close> shows
  an address; a list that is used up means no address.
\<close>

fun await_link :: "bool list \<Rightarrow> nat \<Rightarrow> world \<Rightarrow> bool \<times> world" where
  "await_link ups 0 w = (False, w)"
| "await_link ups (Suc n) w =
     (let w1 = run [py ''ifconfig'', py ''ppp0''] (sleep 2000 w) in
      if ups \<noteq> [] \<and> hd ups then (True, run (ping_cmd ''1'' ''3'' ''8.8.8.8'') w1)
      else await_link (tl ups) n w1)"

definition start_persistent_connection ::
  "ustr \<Rightarrow> ustr \<Rightarrow> bool list \<Rightarrow> world \<Rightarrow> bool \<times> world" where
  "start_persistent_connection device path ups w =
     (case service_initialize_modem 60000 w of
        (ok, w1) \<Rightarrow>
          if \<not> ok then (False, w1)
          else
            (let w2 = (create_file path w1)\<lparr>tmp_chat_path := Some path\<rparr>;
                 w3 = run pkill_pppd w2;
                 w4 = sleep 1000 w3;
                 w5 = run (rm_lock device) w4;
                 w6 = (emit (Popen (service_ppp_cmd device path)) w5)\<lparr>alive := True\<rparr>
             in await_link ups 30 w6))"

text \<open>
  One tick of the monitor: what \<^verbatim>\<open>datetime.now\<close>, \<^verbatim>\<open>get_uptime\<close>, \<^verbatim>\<open>get_connection_stats\<close> and
  \<^verbatim>\<open>test_ping_with_latency\<close> gave. The loop \<^verbatim>\<open>while True\<close> never ends by itself;
  \<open>monitor_loop\<close> is the state after the ticks of the list.
\<close>

record sample =
  timestamp :: ustr
  uptime :: ustr
  ppp_up :: bool
  ip_addr :: "ustr option"
  rx_bytes :: nat
  tx_bytes :: nat
  ping_ok :: bool
  ping_ms :: "ustr option"

definition shown_ip :: "sample \<Rightarrow> ustr" where
  "shown_ip s =
     (case (if \<not> ppp_up s then Some (py ''Disconnected'') else ip_addr s) of
        None \<Rightarrow> py ''N/A''
      | Some a \<Rightarrow> if a = [] then py ''N/A'' else a)"

definition probe :: "world \<Rightarrow> world" where
  "probe w =
     run (ping_cmd ''1'' ''3'' ''8.8.8.8'')
       (run [py ''ifconfig'', py ''ppp0'']
          (run [py ''ps'', py ''-eo'', py ''pid,etime,cmd''] w))"

fun monitor_loop :: "sample list \<Rightarrow> nat \<Rightarrow> world \<Rightarrow> world" where
  "monitor_loop [] line_counter w = w"
| "monitor_loop (s # rest) line_counter w =
     (let w1 = probe w;
          w2 = emit (StatusLine (timestamp s) (uptime s) (last_signal_info w1) (shown_ip s)
                       (rx_bytes s) (tx_bytes s) (ping_ok s) (ping_ms s)) w1
      in if 20 \<le> line_counter + 1
         then monitor_loop rest 0 (sleep 30000 (emit StatusHeader w2))
         else monitor_loop rest (line_counter + 1) (sleep 30000 w2))"

text \<open>
  The main program of the persistent script up to the end of the given ticks: \<^verbatim>\<open>None\<close> while
  the monitor runs, the exit status once the program has left.
\<close>

definition service_main ::
  "ustr \<Rightarrow> bool list \<Rightarrow> sample list \<Rightarrow> world \<Rightarrow> (exn + nat option) \<times> world" where
  "service_main path ups ticks w =
     (case start_persistent_connection (py ''/dev/ttyS0'') path ups w of
        (True, w1) \<Rightarrow> (Inr None, monitor_loop ticks 0 (emit StatusHeader w1))
      | (False, w1) \<Rightarrow> bind (cleanup_connection w1) (\<lambda>_ w2. (Inr (Some 1), w2)))"

section \<open>Reading the log\<close>


definition reads :: "(nat \<times> event) list \<Rightarrow> byte list list" where
  "reads es = concat (map (\<lambda>(t, e). case e of Read bs \<Rightarrow> [bs] | _ \<Rightarrow> []) es)"

definition writes :: "(nat \<times> event) list \<Rightarrow> (nat \<times> byte list) list" where
  "writes es = concat (map (\<lambda>(t, e). case e of Write bs \<Rightarrow> [(t, bs)] | _ \<Rightarrow> []) es)"

definition returns :: "(nat \<times> event) list \<Rightarrow> ustr list" where
  "returns es = concat (map (\<lambda>(t, e). case e of Returned r \<Rightarrow> [r] | _ \<Rightarrow> []) es)"

definition has_token :: "ustr \<Rightarrow> bool" where
  "has_token response \<longleftrightarrow> contains (py ''OK'') response \<or> contains (py ''ERROR'') response"

fun quiet :: "ustr \<Rightarrow> byte list list \<Rightarrow> bool" where
  "quiet acc [] = True"
| "quiet acc (c # cs) =
     (cs = [] \<or> (\<not> has_token (acc @ decode Ignore c) \<and> quiet (acc @ decode Ignore c) cs))"

definition listening :: "nat \<Rightarrow> nat \<Rightarrow> (nat \<times> event) list \<Rightarrow> bool" where
  "listening start_time timeout es =
     list_all (\<lambda>(t, e). t - start_time < timeout \<and>
                 (case e of Read bs \<Rightarrow> bs \<noteq> [] | Sleep ms \<Rightarrow> ms = 100 | _ \<Rightarrow> False)) es"

definition steady :: "world \<Rightarrow> world \<Rightarrow> bool" where
  "steady w w' \<longleftrightarrow>
     fault w' = fault w \<and> ser_open w' = ser_open w \<and> sig_open w' = sig_open w \<and>
     files w' = files w \<and> alive w' = alive w \<and> heeds_term w' = heeds_term w \<and>
     signal_denied w' = signal_denied w \<and> last_signal_info w' = last_signal_info w \<and>
     tmp_chat_path w' = tmp_chat_path w \<and> int_max_str_digits w' = int_max_str_digits w"

definition took :: "world \<Rightarrow> world" where
  "took w = emit (Read (arrived w)) (w\<lparr>rx := filter (\<lambda>(t, bs). \<not> t \<le> clock w) (rx w)\<rparr>)"

fun starts_at :: "nat \<Rightarrow> (nat \<times> event) list \<Rightarrow> bool" where
  "starts_at tm [] = True"
| "starts_at tm ((t, e) # es) = (t = tm \<and> (case e of Write bs \<Rightarrow> True | _ \<Rightarrow> False))"

fun paced :: "nat \<Rightarrow> (ustr \<Rightarrow> bool) \<Rightarrow> (nat \<times> event) list \<Rightarrow> bool" where
  "paced pause good [] = True"
| "paced pause good (x # es) =
     (case snd x of
        Returned r \<Rightarrow>
          if good r then es = []
          else es \<noteq> [] \<and> hd es = (fst x, Sleep pause) \<and> starts_at (fst x + pause) (tl es) \<and>
               paced pause good es
      | _ \<Rightarrow> paced pause good es)"

definition cgatt_query :: "byte list" where
  "cgatt_query = map of_nat (py ''AT+CGATT?'' @ crlf)"

definition creg_query :: "byte list" where
  "creg_query = map of_nat (py ''AT+CREG?'' @ crlf)"

section \<open>Worlds used as concrete inputs\<close>

definition idle :: world where
  "idle = \<lparr>clock = 0, log = [], rx = [], fault = (\<lambda>t. False), ser_open = False,
     sig_open = False, files = {}, alive = False, heeds_term = True, signal_denied = False,
     last_signal_info = (None, Unknown, Question), tmp_chat_path = None,
     int_max_str_digits = 4300\<rparr>"

text \<open>A device that delivers the given texts at the given times.\<close>

definition answering :: "(nat \<times> ustr) list \<Rightarrow> world" where
  "answering replies = idle\<lparr>rx := map (\<lambda>(t, s). (t, map of_nat s)) replies\<rparr>"

definition csq_reply :: "string \<Rightarrow> ustr" where
  "csq_reply v = py ''+CSQ: '' @ py v @ py '',0'' @ crlf @ crlf @ py ''OK'' @ crlf"

text \<open>A device that raises on every operation.\<close>

definition unplugged :: world where
  "unplugged = idle\<lparr>fault := (\<lambda>t. True)\<rparr>"

text \<open>A +CSQ reply whose quality field is the given bytes.\<close>

definition csq_bytes :: "nat list \<Rightarrow> ustr" where
  "csq_bytes v = py ''+CSQ: '' @ v @ py '',0'' @ crlf @ crlf @ py ''OK'' @ crlf"


section \<open>The boundaries of the signal buckets as the specification words them\<close>

definition claimed_bucket :: "int \<Rightarrow> quality" where
  "claimed_bucket rssi =
     (if rssi = 99 then NoSignal
      else if rssi < 10 then Poor
      else if 10 \<le> rssi \<and> rssi < 15 then Fair
      else if 15 \<le> rssi \<and> rssi < 20 then Good
      else Excellent)"

text \<open>
  The one-shot script tells three classes apart: no signal, weak, and good for every other
  reading.
\<close>

definition coarse :: "quality \<Rightarrow> int \<Rightarrow> signal_report" where
  "coarse bucket rssi =
     (case bucket of
        NoSignal \<Rightarrow> NoSignalDetected
      | Poor \<Rightarrow> WeakSignal rssi
      | _ \<Rightarrow> SignalGood rssi)"


section \<open>The AT channel and the polling loops, step by step\<close>

lemma emit_simps [simp]:
  "clock (emit e w) = clock w" "log (emit e w) = log w @ [(clock w, e)]" "rx (emit e w) = rx w"
  "fault (emit e w) = fault w" "ser_open (emit e w) = ser_open w" "sig_open (emit e w) = sig_open w"
  "files (emit e w) = files w" "alive (emit e w) = alive w" "heeds_term (emit e w) = heeds_term w"
  "signal_denied (emit e w) = signal_denied w" "last_signal_info (emit e w) = last_signal_info w"
  "tmp_chat_path (emit e w) = tmp_chat_path w" "int_max_str_digits (emit e w) = int_max_str_digits w"
  by (simp_all add: emit_def)

lemma sleep_simps [simp]:
  "clock (sleep ms w) = clock w + ms" "log (sleep ms w) = log w @ [(clock w, Sleep ms)]"
  "rx (sleep ms w) = rx w"
  "fault (sleep ms w) = fault w" "ser_open (sleep ms w) = ser_open w" "sig_open (sleep ms w) = sig_open w"
  "files (sleep ms w) = files w" "alive (sleep ms w) = alive w" "heeds_term (sleep ms w) = heeds_term w"
  "signal_denied (sleep ms w) = signal_denied w" "last_signal_info (sleep ms w) = last_signal_info w"
  "tmp_chat_path (sleep ms w) = tmp_chat_path w" "int_max_str_digits (sleep ms w) = int_max_str_digits w"
  by (simp_all add: sleep_def)

lemma took_simps [simp]:
  "clock (took w) = clock w" "log (took w) = log w @ [(clock w, Read (arrived w))]"
  "fault (took w) = fault w" "ser_open (took w) = ser_open w" "sig_open (took w) = sig_open w"
  "files (took w) = files w" "alive (took w) = alive w" "heeds_term (took w) = heeds_term w"
  "signal_denied (took w) = signal_denied w" "last_signal_info (took w) = last_signal_info w"
  "tmp_chat_path (took w) = tmp_chat_path w" "int_max_str_digits (took w) = int_max_str_digits w"
  by (simp_all add: took_def)

lemma serial_read_all:
  "\<not> fault w (clock w) \<Longrightarrow> serial_read (length (arrived w)) w = (Inr (arrived w), took w)"
  by (simp add: serial_read_def took_def Let_def)

lemma read_response_rule [case_names over fault idle token more]:
  assumes over: "\<And>s t r w. \<not> clock w - s < t \<Longrightarrow> Q s t r w (Inr r, w)"
      and fault: "\<And>s t r w. clock w - s < t \<Longrightarrow> fault w (clock w) \<Longrightarrow>
                    Q s t r w (Inl SerialException, w)"
      and idle: "\<And>s t r w. clock w - s < t \<Longrightarrow> \<not> fault w (clock w) \<Longrightarrow> arrived w = [] \<Longrightarrow>
                    Q s t r (sleep 100 w) (read_response s t r (sleep 100 w)) \<Longrightarrow>
                    Q s t r w (read_response s t r (sleep 100 w))"
      and token: "\<And>s t r w. clock w - s < t \<Longrightarrow> \<not> fault w (clock w) \<Longrightarrow> arrived w \<noteq> [] \<Longrightarrow>
                    has_token (r @ decode Ignore (arrived w)) \<Longrightarrow>
                    Q s t r w (Inr (r @ decode Ignore (arrived w)), took w)"
      and more: "\<And>s t r w. clock w - s < t \<Longrightarrow> \<not> fault w (clock w) \<Longrightarrow> arrived w \<noteq> [] \<Longrightarrow>
                    \<not> has_token (r @ decode Ignore (arrived w)) \<Longrightarrow>
                    Q s t (r @ decode Ignore (arrived w)) (sleep 100 (took w))
                      (read_response s t (r @ decode Ignore (arrived w)) (sleep 100 (took w))) \<Longrightarrow>
                    Q s t r w (read_response s t (r @ decode Ignore (arrived w)) (sleep 100 (took w)))"
  shows "Q s t r w (read_response s t r w)"
proof (induction s t r w rule: read_response.induct)
  case (1 s t r w)
  show ?case
  proof (cases "clock w - s < t")
    case False
    with over [OF False, of r] show ?thesis by (subst read_response.simps) simp
  next
    case live: True
    show ?thesis
    proof (cases "fault w (clock w)")
      case True
      with fault [OF live True, of r] live show ?thesis
        by (subst read_response.simps) (simp add: in_waiting_def)
    next
      case ok: False
      then have iw: "in_waiting w = Inr (length (arrived w))" by (simp add: in_waiting_def)
      show ?thesis
      proof (cases "arrived w = []")
        case True
        then have z: "\<not> length (arrived w) \<noteq> 0" by simp
        from idle [OF live ok True "1.IH"(2) [OF live iw z]] live iw True show ?thesis
          by (subst read_response.simps) simp
      next
        case False
        then have nz: "length (arrived w) \<noteq> 0" by simp
        have sr: "(Inr (arrived w), took w) = serial_read (length (arrived w)) w"
          using serial_read_all [OF ok] by simp
        show ?thesis
        proof (cases "has_token (r @ decode Ignore (arrived w))")
          case True
          with token [OF live ok False True] live iw nz sr [symmetric] show ?thesis
            by (subst read_response.simps) (simp add: has_token_def Let_def)
        next
          case q: False
          then have q': "\<not> (contains (py ''OK'') (r @ decode Ignore (arrived w)) \<or>
                            contains (py ''ERROR'') (r @ decode Ignore (arrived w)))"
            by (simp add: has_token_def)
          from more [OF live ok False q "1.IH"(1) [OF live iw nz sr refl refl q']]
            live iw nz sr [symmetric] q' show ?thesis
            by (subst read_response.simps) (simp add: Let_def)
        qed
      qed
    qed
  qed
qed

lemma steady_refl [simp]: "steady w w"
  by (simp add: steady_def)

lemma steady_trans: "steady a b \<Longrightarrow> steady b c \<Longrightarrow> steady a c"
  by (simp add: steady_def)

lemma steady_emit [simp]: "steady w (emit e w')  = steady w w'"
  by (simp add: steady_def)

lemma steady_sleep [simp]: "steady w (sleep ms w') = steady w w'"
  by (simp add: steady_def)

lemma steady_took [simp]: "steady w (took w') = steady w w'"
  by (simp add: steady_def)

lemma steady_sleep_left [simp]: "steady (sleep ms w) w' = steady w w'"
  by (simp add: steady_def)

lemma steady_took_left [simp]: "steady (took w) w' = steady w w'"
  by (simp add: steady_def)

lemma steady_emit_left [simp]: "steady (emit e w) w' = steady w w'"
  by (simp add: steady_def)

lemma read_response_steady:
  "steady w (snd (read_response s t r w)) \<and> clock w \<le> clock (snd (read_response s t r w))"
  by (rule read_response_rule
        [where Q = "\<lambda>s t r w res. steady w (snd res) \<and> clock w \<le> clock (snd res)"])
     auto

lemma reads_simps [simp]:
  "reads [] = []" "reads (es @ es') = reads es @ reads es'"
  "reads ((t, Read bs) # es) = bs # reads es"
  "reads ((t, Sleep ms) # es) = reads es"
  "reads ((t, Write bs) # es) = reads es"
  "reads ((t, Returned r) # es) = reads es"
  by (simp_all add: reads_def)

lemma listening_simps [simp]:
  "listening s t [] = True"
  "listening s t ((tm, Read bs) # es) = (tm - s < t \<and> bs \<noteq> [] \<and> listening s t es)"
  "listening s t ((tm, Sleep ms) # es) = (tm - s < t \<and> ms = 100 \<and> listening s t es)"
  by (simp_all add: listening_def)

lemma read_response_trace_aux:
  "\<forall>x w'. read_response s t r w = (Inr x, w') \<longrightarrow>
     (\<exists>es. log w' = log w @ es \<and> listening s t es \<and>
           x = r @ concat (map (decode Ignore) (reads es)) \<and> quiet r (reads es) \<and>
           (has_token x \<or> t \<le> clock w' - s))"
proof (rule read_response_rule
        [where Q = "\<lambda>s t r w res. \<forall>x w'. res = (Inr x, w') \<longrightarrow>
     (\<exists>es. log w' = log w @ es \<and> listening s t es \<and>
           x = r @ concat (map (decode Ignore) (reads es)) \<and> quiet r (reads es) \<and>
           (has_token x \<or> t \<le> clock w' - s))"], goal_cases)
  case (1 s t r w)
  then show ?case by (auto intro!: exI [of _ "[]"])
next
  case (2 s t r w)
  then show ?case by simp
next
  case (3 s t r w)
  show ?case
  proof (intro allI impI)
    fix x w'
    assume "read_response s t r (sleep 100 w) = (Inr x, w')"
    with 3(4) obtain es where
      "log w' = log (sleep 100 w) @ es" "listening s t es"
      "x = r @ concat (map (decode Ignore) (reads es))" "quiet r (reads es)"
      "has_token x \<or> t \<le> clock w' - s"
      by blast
    with 3(1) show "\<exists>es. log w' = log w @ es \<and> listening s t es \<and>
           x = r @ concat (map (decode Ignore) (reads es)) \<and> quiet r (reads es) \<and>
           (has_token x \<or> t \<le> clock w' - s)"
      by (intro exI [of _ "(clock w, Sleep 100) # es"]) simp
  qed
next
  case (4 s t r w)
  then show ?case
    by (auto intro!: exI [of _ "[(clock w, Read (arrived w))]"])
next
  case (5 s t r w)
  show ?case
  proof (intro allI impI)
    fix x w'
    assume "read_response s t (r @ decode Ignore (arrived w)) (sleep 100 (took w)) = (Inr x, w')"
    with 5(5) obtain es where
      "log w' = log (sleep 100 (took w)) @ es" "listening s t es"
      "x = (r @ decode Ignore (arrived w)) @ concat (map (decode Ignore) (reads es))"
      "quiet (r @ decode Ignore (arrived w)) (reads es)"
      "has_token x \<or> t \<le> clock w' - s"
      by blast
    with 5(1,3,4) show "\<exists>es. log w' = log w @ es \<and> listening s t es \<and>
           x = r @ concat (map (decode Ignore) (reads es)) \<and> quiet r (reads es) \<and>
           (has_token x \<or> t \<le> clock w' - s)"
      by (intro exI [of _ "(clock w, Read (arrived w)) # (clock w, Sleep 100) # es"]) simp
  qed
qed

lemma read_response_trace:
  assumes "read_response s t r w = (Inr x, w')"
  obtains es where "log w' = log w @ es" "listening s t es"
    "x = r @ concat (map (decode Ignore) (reads es))" "quiet r (reads es)"
    "has_token x \<or> t \<le> clock w' - s"
  using read_response_trace_aux [of s t r w] assms by blast

lemma send_at_command_steady:
  "steady w (snd (send_at_command c t w)) \<and> clock w \<le> clock (snd (send_at_command c t w))"
proof (cases "encode (c @ crlf)")
  case (Inl e)
  then show ?thesis by (simp add: send_at_command_def)
next
  case (Inr bs)
  show ?thesis
  proof (cases "fault w (clock w)")
    case True
    with Inr show ?thesis by (simp add: send_at_command_def serial_write_def bind_def)
  next
    case False
    define w2 where "w2 = sleep 200 (emit (Write bs) w)"
    obtain res w3 where rr: "read_response (clock w2) t [] w2 = (res, w3)"
      by (cases "read_response (clock w2) t [] w2")
    from read_response_steady [of w2 "clock w2" t "[]"] rr
    have "steady w w3" "clock w \<le> clock w3" by (auto simp: w2_def)
    with Inr False rr show ?thesis
      by (cases res) (simp_all add: send_at_command_def serial_write_def bind_def Let_def w2_def)
  qed
qed

lemma send_at_command_trace:
  assumes "send_at_command c t w = (Inr r, w')"
  obtains bs es where "encode (c @ crlf) = Inr bs"
    "log w' = log w @ [(clock w, Write bs), (clock w, Sleep 200)] @ es @ [(clock w', Returned r)]"
    "listening (clock w + 200) t es"
    "r = strip (concat (map (decode Ignore) (reads es)))" "quiet [] (reads es)"
    "has_token (concat (map (decode Ignore) (reads es))) \<or> t \<le> clock w' - (clock w + 200)"
proof -
  from assms obtain bs where enc: "encode (c @ crlf) = Inr bs"
    by (cases "encode (c @ crlf)") (auto simp: send_at_command_def)
  from assms enc have nf: "\<not> fault w (clock w)"
    by (auto simp: send_at_command_def bind_def serial_write_def split: if_splits)
  define w2 where "w2 = sleep 200 (emit (Write bs) w)"
  obtain res w3 where rr: "read_response (clock w2) t [] w2 = (res, w3)"
    by (cases "read_response (clock w2) t [] w2")
  from assms enc nf rr obtain x where x: "res = Inr x" "r = strip x" "w' = emit (Returned (strip x)) w3"
    by (cases res) (auto simp: send_at_command_def serial_write_def bind_def Let_def w2_def)
  from rr x(1) obtain es where es: "log w3 = log w2 @ es" "listening (clock w2) t es"
    "x = [] @ concat (map (decode Ignore) (reads es))" "quiet [] (reads es)"
    "has_token x \<or> t \<le> clock w3 - clock w2"
    by (auto elim: read_response_trace)
  show ?thesis
  proof (rule that [of bs es])
    show "encode (c @ crlf) = Inr bs" by (rule enc)
    show "log w' = log w @ [(clock w, Write bs), (clock w, Sleep 200)] @ es @ [(clock w', Returned r)]"
      using x es(1) by (simp add: w2_def)
    show "listening (clock w + 200) t es" using es(2) by (simp add: w2_def)
    show "r = strip (concat (map (decode Ignore) (reads es)))" using x es(3) by simp
    show "quiet [] (reads es)" by (rule es(4))
    show "has_token (concat (map (decode Ignore) (reads es))) \<or> t \<le> clock w' - (clock w + 200)"
      using es(3,5) x by (simp add: w2_def)
  qed
qed

lemma returns_simps [simp]:
  "returns [] = []" "returns (es @ es') = returns es @ returns es'"
  "returns ((t, Returned r) # es) = r # returns es"
  "returns ((t, Sleep ms) # es) = returns es"
  "returns ((t, Write bs) # es) = returns es"
  "returns ((t, Read bs) # es) = returns es"
  by (simp_all add: returns_def)

lemma writes_simps [simp]:
  "writes [] = []" "writes (es @ es') = writes es @ writes es'"
  "writes ((t, Write bs) # es) = (t, bs) # writes es"
  "writes ((t, Sleep ms) # es) = writes es"
  "writes ((t, Returned r) # es) = writes es"
  "writes ((t, Read bs) # es) = writes es"
  by (simp_all add: writes_def)

lemma listening_silent:
  "listening s t es \<Longrightarrow> returns es = [] \<and> writes es = []"
proof (induction es)
  case Nil
  show ?case by simp
next
  case (Cons x es)
  obtain tm e where x: "x = (tm, e)" by (cases x)
  from Cons show ?case by (cases e) (auto simp: x listening_def returns_def writes_def)
qed

lemma paced_listening:
  "listening s t es \<Longrightarrow> paced p g (es @ rest) = paced p g rest"
proof (induction es)
  case Nil
  show ?case by simp
next
  case (Cons x es)
  obtain tm e where x: "x = (tm, e)" by (cases x)
  from Cons show ?case by (cases e) (auto simp: x listening_def)
qed

lemma poll_step:
  assumes "send_at_command c t w = (Inr r, w1)"
  obtains bs es1 where "encode (c @ crlf) = Inr bs" "log w1 = log w @ es1"
    "returns es1 = [r]" "writes es1 = [(clock w, bs)]"
    "\<And>rest. paced p g (es1 @ rest) = paced p g ((clock w1, Returned r) # rest)"
    "\<And>rest. starts_at (clock w) (es1 @ rest)"
proof -
  from assms obtain bs es where a: "encode (c @ crlf) = Inr bs"
    "log w1 = log w @ [(clock w, Write bs), (clock w, Sleep 200)] @ es @ [(clock w1, Returned r)]"
    "listening (clock w + 200) t es"
    by (rule send_at_command_trace)
  show ?thesis
  proof (rule that [of bs "[(clock w, Write bs), (clock w, Sleep 200)] @ es @ [(clock w1, Returned r)]"])
    show "encode (c @ crlf) = Inr bs" by (rule a)
    show "log w1 = log w @ [(clock w, Write bs), (clock w, Sleep 200)] @ es @ [(clock w1, Returned r)]"
      by (rule a)
    show "returns ([(clock w, Write bs), (clock w, Sleep 200)] @ es @ [(clock w1, Returned r)]) = [r]"
      using listening_silent [OF a(3)] by simp
    show "writes ([(clock w, Write bs), (clock w, Sleep 200)] @ es @ [(clock w1, Returned r)]) =
            [(clock w, bs)]"
      using listening_silent [OF a(3)] by simp
    show "paced p g (([(clock w, Write bs), (clock w, Sleep 200)] @ es @ [(clock w1, Returned r)]) @ rest) =
            paced p g ((clock w1, Returned r) # rest)" for rest
      using paced_listening [OF a(3), of p g "(clock w1, Returned r) # rest"] by simp
    show "starts_at (clock w) (([(clock w, Write bs), (clock w, Sleep 200)] @ es @
            [(clock w1, Returned r)]) @ rest)" for rest
      by simp
  qed
qed

lemma encode_ascii:
  "list_all (\<lambda>c. c < 128) s \<Longrightarrow> utf8_encode s = Inr s"
  by (induction s) auto

lemma attach_poll_trace_aux:
  "attach_poll n w = (Inr b, w') \<Longrightarrow>
     \<exists>es. log w' = log w @ es \<and> paced 2000 attached es \<and> starts_at (clock w) es \<and>
          length (returns es) \<le> n \<and>
          map snd (writes es) = replicate (length (returns es)) cgatt_query \<and>
          (b \<longrightarrow> returns es \<noteq> [] \<and> attached (last (returns es))) \<and>
          (\<not> b \<longrightarrow> length (returns es) = n \<and> list_all (\<lambda>r. \<not> attached r) (returns es) \<and>
                  (n \<noteq> 0 \<longrightarrow> es \<noteq> []) \<and> (es \<noteq> [] \<longrightarrow> snd (last es) = Sleep 2000))"
proof (induction n arbitrary: w)
  case 0
  then show ?case by (auto intro!: exI [of _ "[]"])
next
  case (Suc n)
  obtain res w1 where s: "send_at_command (py ''AT+CGATT?'') 5000 w = (res, w1)"
    by (cases "send_at_command (py ''AT+CGATT?'') 5000 w")
  with Suc.prems obtain r where r: "res = Inr r" by (cases res) auto
  have enc: "encode (py ''AT+CGATT?'' @ crlf) = Inr cgatt_query"
    by (simp add: encode_def cgatt_query_def encode_ascii py_def crlf_def)
  from s r obtain bs es1 where e1: "encode (py ''AT+CGATT?'' @ crlf) = Inr bs" "log w1 = log w @ es1"
    "returns es1 = [r]" "writes es1 = [(clock w, bs)]"
    "\<And>rest. paced 2000 attached (es1 @ rest) = paced 2000 attached ((clock w1, Returned r) # rest)"
    "\<And>rest. starts_at (clock w) (es1 @ rest)"
    by (auto elim: poll_step [where p = 2000 and g = attached])
  from e1(1) enc have bs: "bs = cgatt_query" by simp
  show ?case
  proof (cases "attached r")
    case True
    with Suc.prems s r have "b" "w' = w1" by auto
    with e1 True bs e1(5) [of "[]"] e1(6) [of "[]"] show ?thesis
      by (intro exI [of _ es1]) simp
  next
    case False
    with Suc.prems s r have rec: "attach_poll n (sleep 2000 w1) = (Inr b, w')" by auto
    from Suc.IH [OF rec] obtain es where es: "log w' = log (sleep 2000 w1) @ es"
      "paced 2000 attached es" "starts_at (clock (sleep 2000 w1)) es" "length (returns es) \<le> n"
      "map snd (writes es) = replicate (length (returns es)) cgatt_query"
      "b \<longrightarrow> returns es \<noteq> [] \<and> attached (last (returns es))"
      "\<not> b \<longrightarrow> length (returns es) = n \<and> list_all (\<lambda>r. \<not> attached r) (returns es) \<and>
                  (n \<noteq> 0 \<longrightarrow> es \<noteq> []) \<and> (es \<noteq> [] \<longrightarrow> snd (last es) = Sleep 2000)"
      by blast
    show ?thesis
    proof (intro exI [of _ "es1 @ (clock w1, Sleep 2000) # es"] conjI)
      show "log w' = log w @ es1 @ (clock w1, Sleep 2000) # es" using es(1) e1(2) by simp
      show "paced 2000 attached (es1 @ (clock w1, Sleep 2000) # es)"
        using e1(5) [of "(clock w1, Sleep 2000) # es"] False es(2,3) by simp
      show "starts_at (clock w) (es1 @ (clock w1, Sleep 2000) # es)" by (rule e1(6))
      show "length (returns (es1 @ (clock w1, Sleep 2000) # es)) \<le> Suc n" using e1(3) es(4) by simp
      show "map snd (writes (es1 @ (clock w1, Sleep 2000) # es)) =
              replicate (length (returns (es1 @ (clock w1, Sleep 2000) # es))) cgatt_query"
        using e1(3,4) es(5) bs by simp
      show "b \<longrightarrow> returns (es1 @ (clock w1, Sleep 2000) # es) \<noteq> [] \<and>
              attached (last (returns (es1 @ (clock w1, Sleep 2000) # es)))"
        using e1(3) es(6) by simp
      show "\<not> b \<longrightarrow> length (returns (es1 @ (clock w1, Sleep 2000) # es)) = Suc n \<and>
              list_all (\<lambda>r. \<not> attached r) (returns (es1 @ (clock w1, Sleep 2000) # es)) \<and>
              (Suc n \<noteq> 0 \<longrightarrow> es1 @ (clock w1, Sleep 2000) # es \<noteq> []) \<and>
              (es1 @ (clock w1, Sleep 2000) # es \<noteq> [] \<longrightarrow>
                 snd (last (es1 @ (clock w1, Sleep 2000) # es)) = Sleep 2000)"
        using e1(3) es(7) False by auto
    qed
  qed
qed

lemma reg_wait_trace_aux:
  "reg_wait pause s m w = (Inr b, w') \<Longrightarrow>
     \<exists>es. log w' = log w @ es \<and> paced pause registered es \<and> starts_at (clock w) es \<and>
          list_all (\<lambda>(t, bs). t - s < m \<and> bs = creg_query) (writes es) \<and>
          length (writes es) = length (returns es) \<and>
          (b \<longrightarrow> returns es \<noteq> [] \<and> registered (last (returns es))) \<and>
          (\<not> b \<longrightarrow> m \<le> clock w' - s \<and> list_all (\<lambda>r. \<not> registered r) (returns es) \<and>
                  (es \<noteq> [] \<longrightarrow> snd (last es) = Sleep pause))"
proof (induction pause s m w rule: reg_wait.induct)
  case (1 pause s m w)
  show ?case
  proof (cases "clock w - s < m")
    case False
    with "1.prems" have "\<not> b" "w' = w" by (simp_all add: reg_wait.simps [of pause s m w])
    with False show ?thesis by (intro exI [of _ "[]"]) simp
  next
    case live: True
    obtain res w1 where sc: "(res, w1) = send_at_command (py ''AT+CREG?'') 5000 w"
      by (cases "send_at_command (py ''AT+CREG?'') 5000 w") simp
    with "1.prems" live obtain r where r: "res = Inr r"
      by (cases res) (auto simp: reg_wait.simps [of pause s m w] split: prod.splits)
    have enc: "encode (py ''AT+CREG?'' @ crlf) = Inr creg_query"
      by (simp add: encode_def creg_query_def encode_ascii py_def crlf_def)
    from sc r have "send_at_command (py ''AT+CREG?'') 5000 w = (Inr r, w1)" by simp
    then obtain bs es1 where e1: "encode (py ''AT+CREG?'' @ crlf) = Inr bs" "log w1 = log w @ es1"
      "returns es1 = [r]" "writes es1 = [(clock w, bs)]"
      "\<And>rest. paced pause registered (es1 @ rest) =
         paced pause registered ((clock w1, Returned r) # rest)"
      "\<And>rest. starts_at (clock w) (es1 @ rest)"
      by (auto elim: poll_step [where p = pause and g = registered])
    from e1(1) enc have bs: "bs = creg_query" by simp
    show ?thesis
    proof (cases "registered r")
      case True
      with "1.prems" live sc [symmetric] r have "b" "w' = w1"
        by (simp_all add: reg_wait.simps [of pause s m w])
      with e1 True bs e1(5) [of "[]"] e1(6) [of "[]"] live show ?thesis
        by (intro exI [of _ es1]) simp
    next
      case False
      with "1.prems" live sc [symmetric] r
      have rec: "reg_wait pause s m (sleep pause w1) = (Inr b, w')"
        by (simp add: reg_wait.simps [of pause s m w])
      from "1.IH" [OF live sc r False rec] obtain es where es:
        "log w' = log (sleep pause w1) @ es" "paced pause registered es"
        "starts_at (clock (sleep pause w1)) es"
        "list_all (\<lambda>(t, bs). t - s < m \<and> bs = creg_query) (writes es)"
        "length (writes es) = length (returns es)"
        "b \<longrightarrow> returns es \<noteq> [] \<and> registered (last (returns es))"
        "\<not> b \<longrightarrow> m \<le> clock w' - s \<and> list_all (\<lambda>r. \<not> registered r) (returns es) \<and>
                  (es \<noteq> [] \<longrightarrow> snd (last es) = Sleep pause)"
        by blast
      show ?thesis
      proof (intro exI [of _ "es1 @ (clock w1, Sleep pause) # es"] conjI)
        show "log w' = log w @ es1 @ (clock w1, Sleep pause) # es" using es(1) e1(2) by simp
        show "paced pause registered (es1 @ (clock w1, Sleep pause) # es)"
          using e1(5) [of "(clock w1, Sleep pause) # es"] False es(2,3) by simp
        show "starts_at (clock w) (es1 @ (clock w1, Sleep pause) # es)" by (rule e1(6))
        show "list_all (\<lambda>(t, bs). t - s < m \<and> bs = creg_query)
                (writes (es1 @ (clock w1, Sleep pause) # es))"
          using e1(4) es(4) bs live by simp
        show "length (writes (es1 @ (clock w1, Sleep pause) # es)) =
                length (returns (es1 @ (clock w1, Sleep pause) # es))"
          using e1(3,4) es(5) by simp
        show "b \<longrightarrow> returns (es1 @ (clock w1, Sleep pause) # es) \<noteq> [] \<and>
                registered (last (returns (es1 @ (clock w1, Sleep pause) # es)))"
          using e1(3) es(6) by simp
        show "\<not> b \<longrightarrow> m \<le> clock w' - s \<and>
                list_all (\<lambda>r. \<not> registered r) (returns (es1 @ (clock w1, Sleep pause) # es)) \<and>
                (es1 @ (clock w1, Sleep pause) # es \<noteq> [] \<longrightarrow>
                   snd (last (es1 @ (clock w1, Sleep pause) # es)) = Sleep pause)"
          using e1(3) es(7) False by auto
      qed
    qed
  qed
qed

lemma attach_poll_steady:
  "steady w (snd (attach_poll n w)) \<and> clock w \<le> clock (snd (attach_poll n w))"
proof (induction n arbitrary: w)
  case 0
  show ?case by simp
next
  case (Suc n)
  obtain res w1 where s: "send_at_command (py ''AT+CGATT?'') 5000 w = (res, w1)"
    by (cases "send_at_command (py ''AT+CGATT?'') 5000 w")
  with send_at_command_steady [of w "py ''AT+CGATT?''" 5000]
  have a: "steady w w1" "clock w \<le> clock w1" by simp_all
  show ?case
  proof (cases res)
    case (Inl e)
    with s a show ?thesis by simp
  next
    case (Inr r)
    from Suc [of "sleep 2000 w1"] a
    have "steady w (snd (attach_poll n (sleep 2000 w1)))"
         "clock w \<le> clock (snd (attach_poll n (sleep 2000 w1)))"
      by (auto simp: steady_def)
    with s Inr a show ?thesis by simp
  qed
qed

lemma reg_wait_steady:
  "steady w (snd (reg_wait pause s m w)) \<and> clock w \<le> clock (snd (reg_wait pause s m w))"
proof (induction pause s m w rule: reg_wait.induct)
  case (1 pause s m w)
  show ?case
  proof (cases "clock w - s < m")
    case False
    then show ?thesis by (simp add: reg_wait.simps [of pause s m w])
  next
    case live: True
    obtain res w1 where sc: "(res, w1) = send_at_command (py ''AT+CREG?'') 5000 w"
      by (cases "send_at_command (py ''AT+CREG?'') 5000 w") simp
    have a: "steady w w1" "clock w \<le> clock w1"
      using send_at_command_steady [of w "py ''AT+CREG?''" 5000] by (simp_all add: sc [symmetric])
    show ?thesis
    proof (cases res)
      case (Inl e)
      with live sc [symmetric] a show ?thesis by (simp add: reg_wait.simps [of pause s m w])
    next
      case (Inr r)
      show ?thesis
      proof (cases "registered r")
        case True
        with live sc [symmetric] a Inr show ?thesis by (simp add: reg_wait.simps [of pause s m w])
      next
        case False
        from "1.IH" [OF live sc Inr False] a
        have "steady w (snd (reg_wait pause s m (sleep pause w1)))"
             "clock w \<le> clock (snd (reg_wait pause s m (sleep pause w1)))"
          by (auto simp: steady_def)
        with live sc [symmetric] Inr False show ?thesis
          by (simp add: reg_wait.simps [of pause s m w])
      qed
    qed
  qed
qed

section \<open>Properties of the signal classification\<close>

lemma decimal_ascii: "48 \<le> c \<Longrightarrow> c \<le> 57 \<Longrightarrow> decimal c = Some (c - 48)"
  by (simp add: decimal_def decimal_runs_def)

lemma decimal_below: "c < 48 \<Longrightarrow> decimal c = None"
  by (simp add: decimal_def decimal_runs_def)

lemma decimal_latin: "57 < c \<Longrightarrow> c < 1632 \<Longrightarrow> decimal c = None"
  by (simp add: decimal_def decimal_runs_def)

lemma decimal_arabic: "1632 \<le> c \<Longrightarrow> c \<le> 1641 \<Longrightarrow> decimal c = Some (c - 1632)"
  by (simp add: decimal_def decimal_runs_def)

lemmas text_defs = py_def crlf_def csq_reply_def
lemmas parse_defs = csq_field_def split_def and_then_def index_def py_int_def strip_def isspace_def
  int_space_def int_unsigned_def decimal_ascii decimal_below decimal_latin decimal_arabic
lemmas port_defs = answering_def idle_def bind_def serial_open_def serial_close_def set_open_def emit_def sleep_def
  serial_write_def in_waiting_def arrived_def serial_read_def send_at_command_def encode_def decode_def
  is_cont_def on_error_def Let_def read_response.simps

lemma split_from_absent:
  "\<not> contains sep s \<Longrightarrow> split_from sep cur s = [rev cur @ s]"
  by (induction s arbitrary: cur) auto

lemma csq_field_needs_token:
  assumes "csq_field limit response = Inr rssi"
  shows "contains (py ''+CSQ:'') response"
proof (rule ccontr)
  assume "\<not> contains (py ''+CSQ:'') response"
  then have "split_from (py ''+CSQ:'') [] response = [response]"
    by (simp add: split_from_absent)
  then have "csq_field limit response = Inl IndexError"
    by (simp add: csq_field_def split_def and_then_def index_def py_def)
  with assms show False by simp
qed

lemma csq_exchange_limit:
  "int_max_str_digits (snd (csq_exchange w)) = int_max_str_digits w"
proof (cases "fault w (clock w)")
  case True
  then show ?thesis by (simp add: csq_exchange_def serial_open_def bind_def)
next
  case False
  define w1 where "w1 = set_open SigSer True (emit (Open SigSer) w)"
  have a: "int_max_str_digits w1 = int_max_str_digits w" by (simp add: w1_def set_open_def)
  from send_at_command_steady [of w1 "py ''AT+CSQ''" 5000]
  have "int_max_str_digits (snd (send_at_command (py ''AT+CSQ'') 5000 w1)) = int_max_str_digits w1"
    by (simp add: steady_def)
  with False a show ?thesis by (simp add: csq_exchange_def serial_open_def bind_def w1_def)
qed

lemma get_signal_of_response:
  assumes "fst (csq_exchange w) = Inr response"
  shows "fst (get_signal_strength_at_init w) =
           (case read_signal (int_max_str_digits w) response of
              Inr info \<Rightarrow> info
            | Inl e \<Rightarrow> (None, Error e, Question))"
  using assms csq_exchange_limit [of w]
  by (cases "csq_exchange w")
     (auto simp: get_signal_strength_at_init_def signal_query_def bind_def split: sum.splits)

lemma get_signal_of_exception:
  assumes "fst (csq_exchange w) = Inl e"
  shows "fst (get_signal_strength_at_init w) = (None, Error e, Question)"
  using assms
  by (cases "csq_exchange w")
     (auto simp: get_signal_strength_at_init_def signal_query_def bind_def split: sum.splits)

text \<open>
  C1. In the persistent script: when the +CSQ exchange returns a response whose quality
  field parses to \<open>rssi\<close>, and \<open>rssi\<close> is in 0..31 or is 99, the tuple returned by
  \<^verbatim>\<open>get_signal_strength_at_init\<close> holds \<open>rssi\<close> and the bucket that the boundaries of the
  specification give: 99 is no signal, below 10 poor, 10 to 14 fair, 15 to 19 good, 20 and
  above excellent. The bucket depends on \<open>rssi\<close> alone. In the one-shot script the same
  reading gets one of three messages only: no signal for 99, weak below 10, and good for
  all that the specification calls fair, good or excellent.
\<close>

theorem signal_bucket_boundaries:
  assumes "fst (csq_exchange w) = Inr response"
      and "csq_field (int_max_str_digits w) response = Inr rssi"
      and "(0 \<le> rssi \<and> rssi \<le> 31) \<or> rssi = 99"
  shows "fst (fst (get_signal_strength_at_init w)) = Some rssi \<and>
         fst (snd (fst (get_signal_strength_at_init w))) = claimed_bucket rssi \<and>
         report_signal response w = emit (Report (coarse (claimed_bucket rssi) rssi)) w"
  using assms csq_field_needs_token [OF assms(2)]
  by (simp add: get_signal_of_response read_signal_def and_then_def claimed_bucket_def
        report_signal_def coarse_def)

lemma exchange_15:
  "fst (csq_exchange (answering [(150, csq_reply ''15'')])) =
     Inr (py ''+CSQ: 15,0'' @ crlf @ crlf @ py ''OK'')"
  by (simp add: csq_exchange_def text_defs port_defs strip_def isspace_def)

lemma limit_answering: "int_max_str_digits (answering replies) = 4300"
  by (simp add: answering_def idle_def)

lemma field_15: "csq_field 4300 (py ''+CSQ: 15,0'' @ crlf @ crlf @ py ''OK'') = Inr 15"
  by (simp add: text_defs parse_defs)

theorem signal_bucket_boundaries_witness:
  "fst (csq_exchange (answering [(150, csq_reply ''15'')])) =
     Inr (py ''+CSQ: 15,0'' @ crlf @ crlf @ py ''OK'') \<and>
   csq_field (int_max_str_digits (answering [(150, csq_reply ''15'')]))
     (py ''+CSQ: 15,0'' @ crlf @ crlf @ py ''OK'') = Inr 15 \<and>
   fst (fst (get_signal_strength_at_init (answering [(150, csq_reply ''15'')]))) = Some 15 \<and>
   fst (snd (fst (get_signal_strength_at_init (answering [(150, csq_reply ''15'')])))) = Good \<and>
   report_signal (py ''+CSQ: 15,0'' @ crlf @ crlf @ py ''OK'') (answering [(150, csq_reply ''15'')]) =
     emit (Report (SignalGood 15)) (answering [(150, csq_reply ''15'')]) \<and>
   claimed_bucket 9 = Poor \<and> claimed_bucket 10 = Fair \<and> claimed_bucket 14 = Fair \<and>
   claimed_bucket 15 = Good \<and> claimed_bucket 19 = Good \<and> claimed_bucket 20 = Excellent \<and>
   claimed_bucket 99 = NoSignal"
proof -
  have d: "(0 \<le> (15::int) \<and> (15::int) \<le> 31) \<or> (15::int) = 99" by simp
  have e: "claimed_bucket 15 = Good" by (simp add: claimed_bucket_def)
  have g: "coarse Good 15 = SignalGood 15" by (simp add: coarse_def)
  have f: "csq_field (int_max_str_digits (answering [(150, csq_reply ''15'')]))
     (py ''+CSQ: 15,0'' @ crlf @ crlf @ py ''OK'') = Inr 15"
    using field_15 by (simp only: limit_answering)
  note c = signal_bucket_boundaries [OF exchange_15 f d]
  have k: "claimed_bucket 9 = Poor" "claimed_bucket 10 = Fair" "claimed_bucket 14 = Fair"
    "claimed_bucket 19 = Good" "claimed_bucket 20 = Excellent" "claimed_bucket 99 = NoSignal"
    by (simp_all add: claimed_bucket_def)
  from exchange_15 f c [THEN conjunct1] c [THEN conjunct2, THEN conjunct1, unfolded e]
    c [THEN conjunct2, THEN conjunct2, unfolded e g] e k
  show ?thesis by blast
qed

lemma field_14: "csq_field 4300 (py ''+CSQ: 14,0'' @ crlf @ crlf @ py ''OK'') = Inr 14"
  by (simp add: text_defs parse_defs)

lemma field_20: "csq_field 4300 (py ''+CSQ: 20,0'' @ crlf @ crlf @ py ''OK'') = Inr 20"
  by (simp add: text_defs parse_defs)

lemma token_14: "contains (py ''+CSQ:'') (py ''+CSQ: 14,0'' @ crlf @ crlf @ py ''OK'')"
  by (simp add: text_defs)

lemma token_20: "contains (py ''+CSQ:'') (py ''+CSQ: 20,0'' @ crlf @ crlf @ py ''OK'')"
  by (simp add: text_defs)

text \<open>
  The one-shot script does not keep the boundaries at 15 and 20 (nor the one at 10 as a
  boundary between fair and poor only): readings of 14 and of 20, fair and excellent in the
  specification, get the same message as 15 does.
\<close>

theorem one_shot_merges_buckets:
  "log (report_signal (py ''+CSQ: 14,0'' @ crlf @ crlf @ py ''OK'') idle) =
     [(0, Report (SignalGood 14))] \<and>
   log (report_signal (py ''+CSQ: 20,0'' @ crlf @ crlf @ py ''OK'') idle) =
     [(0, Report (SignalGood 20))] \<and>
   claimed_bucket 14 = Fair \<and> claimed_bucket 20 = Excellent"
proof -
  have l: "int_max_str_digits idle = 4300" "log idle = []" "clock idle = 0"
    by (simp_all add: idle_def)
  have a: "log (report_signal (py ''+CSQ: 14,0'' @ crlf @ crlf @ py ''OK'') idle) =
     [(0, Report (SignalGood 14))]"
    by (simp add: report_signal_def token_14 field_14 l)
  have b: "log (report_signal (py ''+CSQ: 20,0'' @ crlf @ crlf @ py ''OK'') idle) =
     [(0, Report (SignalGood 20))]"
    by (simp add: report_signal_def token_20 field_20 l)
  have c: "claimed_bucket 14 = Fair" "claimed_bucket 20 = Excellent"
    by (simp_all add: claimed_bucket_def)
  from a b c show ?thesis by blast
qed

text \<open>
  C10. \<^verbatim>\<open>get_signal_strength_at_init\<close> answers on every input, and the answer is fixed by the
  outcome of the exchange and of the parsing, of which exactly the cases below exist. A
  parsed \<open>rssi\<close>, whatever integer it is, gives the tuple of its bucket: 99 no signal, every
  other value below 10 (the negative ones too) poor, below 15 fair, below 20 good, and all
  the rest, however large, excellent. An exception of the exchange or of the parsing
  gives \<^verbatim>\<open>(None, "Error: ...", "?")\<close>, a response without the token \<^verbatim>\<open>(None, "Unknown", "?")\<close>;
  nothing is raised.
\<close>

theorem signal_total:
  "(fst (csq_exchange w) = Inr response \<and> csq_field (int_max_str_digits w) response = Inr rssi
      \<longrightarrow> fst (get_signal_strength_at_init w) =
            (if rssi = 99 then (Some 99, NoSignal, Cross)
             else if rssi < 10 then (Some rssi, Poor, Warning)
             else if rssi < 15 then (Some rssi, Fair, Gear)
             else if rssi < 20 then (Some rssi, Good, Check)
             else (Some rssi, Excellent, CheckCheck))) \<and>
   (fst (csq_exchange w) = Inr response \<and> csq_field (int_max_str_digits w) response = Inr rssi \<and>
    20 \<le> rssi \<and> rssi \<noteq> 99
      \<longrightarrow> fst (get_signal_strength_at_init w) = (Some rssi, Excellent, CheckCheck)) \<and>
   (fst (csq_exchange w) = Inl e
      \<longrightarrow> fst (get_signal_strength_at_init w) = (None, Error e, Question)) \<and>
   (fst (csq_exchange w) = Inr response \<and> contains (py ''+CSQ:'') response \<and>
    csq_field (int_max_str_digits w) response = Inl e
      \<longrightarrow> fst (get_signal_strength_at_init w) = (None, Error e, Question)) \<and>
   (fst (csq_exchange w) = Inr response \<and> \<not> contains (py ''+CSQ:'') response
      \<longrightarrow> fst (get_signal_strength_at_init w) = (None, Unknown, Question)) \<and>
   ((\<exists>x. fst (csq_exchange w) = Inl x) \<or>
    (\<exists>r. fst (csq_exchange w) = Inr r \<and>
       (\<not> contains (py ''+CSQ:'') r \<or>
        (contains (py ''+CSQ:'') r \<and> (\<exists>x. csq_field (int_max_str_digits w) r = Inl x)) \<or>
        (\<exists>n. csq_field (int_max_str_digits w) r = Inr n))))"
proof (intro conjI impI)
  assume a: "fst (csq_exchange w) = Inr response \<and>
             csq_field (int_max_str_digits w) response = Inr rssi"
  then have "contains (py ''+CSQ:'') response"
    using csq_field_needs_token by blast
  with a show "fst (get_signal_strength_at_init w) =
            (if rssi = 99 then (Some 99, NoSignal, Cross)
             else if rssi < 10 then (Some rssi, Poor, Warning)
             else if rssi < 15 then (Some rssi, Fair, Gear)
             else if rssi < 20 then (Some rssi, Good, Check)
             else (Some rssi, Excellent, CheckCheck))"
    by (simp add: get_signal_of_response read_signal_def and_then_def)
next
  assume a: "fst (csq_exchange w) = Inr response \<and>
             csq_field (int_max_str_digits w) response = Inr rssi \<and> 20 \<le> rssi \<and> rssi \<noteq> 99"
  then have "contains (py ''+CSQ:'') response"
    using csq_field_needs_token by blast
  with a show "fst (get_signal_strength_at_init w) = (Some rssi, Excellent, CheckCheck)"
    by (simp add: get_signal_of_response read_signal_def and_then_def)
next
  assume "fst (csq_exchange w) = Inl e"
  then show "fst (get_signal_strength_at_init w) = (None, Error e, Question)"
    by (rule get_signal_of_exception)
next
  assume "fst (csq_exchange w) = Inr response \<and> contains (py ''+CSQ:'') response \<and>
          csq_field (int_max_str_digits w) response = Inl e"
  then show "fst (get_signal_strength_at_init w) = (None, Error e, Question)"
    by (simp add: get_signal_of_response read_signal_def and_then_def)
next
  assume "fst (csq_exchange w) = Inr response \<and> \<not> contains (py ''+CSQ:'') response"
  then show "fst (get_signal_strength_at_init w) = (None, Unknown, Question)"
    by (simp add: get_signal_of_response read_signal_def)
next
  show "(\<exists>x. fst (csq_exchange w) = Inl x) \<or>
    (\<exists>r. fst (csq_exchange w) = Inr r \<and>
       (\<not> contains (py ''+CSQ:'') r \<or>
        (contains (py ''+CSQ:'') r \<and> (\<exists>x. csq_field (int_max_str_digits w) r = Inl x)) \<or>
        (\<exists>n. csq_field (int_max_str_digits w) r = Inr n)))"
  proof (cases "fst (csq_exchange w)")
    case (Inl x)
    then show ?thesis by blast
  next
    case (Inr r)
    then show ?thesis
      by (cases "csq_field (int_max_str_digits w) r") (auto dest: csq_field_needs_token)
  qed
qed

lemma exchange_45:
  "fst (csq_exchange (answering [(150, csq_reply ''45'')])) =
     Inr (py ''+CSQ: 45,0'' @ crlf @ crlf @ py ''OK'')"
  by (simp add: csq_exchange_def text_defs port_defs strip_def isspace_def)

lemma field_45: "csq_field 4300 (py ''+CSQ: 45,0'' @ crlf @ crlf @ py ''OK'') = Inr 45"
  by (simp add: text_defs parse_defs)

lemma exchange_minus_5:
  "fst (csq_exchange (answering [(150, csq_reply ''-5'')])) =
     Inr (py ''+CSQ: -5,0'' @ crlf @ crlf @ py ''OK'')"
  by (simp add: csq_exchange_def text_defs port_defs strip_def isspace_def)

lemma field_minus_5: "csq_field 4300 (py ''+CSQ: -5,0'' @ crlf @ crlf @ py ''OK'') = Inr (- 5)"
  by (simp add: text_defs parse_defs)

lemma exchange_arabic:
  "fst (csq_exchange (answering [(150, csq_bytes [217, 161, 217, 165])])) =
     Inr (py ''+CSQ: '' @ [1633, 1637] @ py '',0'' @ crlf @ crlf @ py ''OK'')"
  by (simp add: csq_exchange_def csq_bytes_def text_defs port_defs strip_def isspace_def)

lemma field_arabic:
  "csq_field 4300 (py ''+CSQ: '' @ [1633, 1637] @ py '',0'' @ crlf @ crlf @ py ''OK'') = Inr 15"
  by (simp add: text_defs parse_defs)

lemma exchange_unplugged: "fst (csq_exchange unplugged) = Inl SerialException"
  by (simp add: csq_exchange_def unplugged_def port_defs)

lemma exchange_garbled:
  "fst (csq_exchange (answering [(150, csq_reply ''x'')])) =
     Inr (py ''+CSQ: x,0'' @ crlf @ crlf @ py ''OK'')"
  by (simp add: csq_exchange_def text_defs port_defs strip_def isspace_def)

lemma field_garbled:
  "contains (py ''+CSQ:'') (py ''+CSQ: x,0'' @ crlf @ crlf @ py ''OK'') \<and>
   csq_field 4300 (py ''+CSQ: x,0'' @ crlf @ crlf @ py ''OK'') = Inl ValueError"
  by (simp add: text_defs parse_defs)

lemma exchange_bare:
  "fst (csq_exchange (answering [(150, py ''OK'' @ crlf)])) = Inr (py ''OK'')"
  by (simp add: csq_exchange_def text_defs port_defs strip_def isspace_def)

lemma bare_has_no_token: "\<not> contains (py ''+CSQ:'') (py ''OK'')"
  by (simp add: py_def)

theorem signal_total_witness:
  "fst (get_signal_strength_at_init (answering [(150, csq_reply ''45'')])) =
     (Some 45, Excellent, CheckCheck) \<and>
   fst (get_signal_strength_at_init (answering [(150, csq_reply ''-5'')])) =
     (Some (- 5), Poor, Warning) \<and>
   fst (get_signal_strength_at_init (answering [(150, csq_bytes [217, 161, 217, 165])])) =
     (Some 15, Good, Check) \<and>
   fst (get_signal_strength_at_init unplugged) = (None, Error SerialException, Question) \<and>
   fst (get_signal_strength_at_init (answering [(150, csq_reply ''x'')])) =
     (None, Error ValueError, Question) \<and>
   fst (get_signal_strength_at_init (answering [(150, py ''OK'' @ crlf)])) =
     (None, Unknown, Question)"
proof -
  have a: "(20::int) \<le> 45 \<and> (45::int) \<noteq> 99" by simp
  note l = limit_answering
  note t1 = signal_total [of "answering [(150, csq_reply ''45'')]"
      "py ''+CSQ: 45,0'' @ crlf @ crlf @ py ''OK''" 45 ValueError,
      THEN conjunct2, THEN conjunct1, rule_format]
  note t0 = signal_total [of "answering [(150, csq_reply ''-5'')]"
      "py ''+CSQ: -5,0'' @ crlf @ crlf @ py ''OK''" "- 5" ValueError,
      THEN conjunct1, rule_format]
  note ta = signal_total [of "answering [(150, csq_bytes [217, 161, 217, 165])]"
      "py ''+CSQ: '' @ [1633, 1637] @ py '',0'' @ crlf @ crlf @ py ''OK''" 15 ValueError,
      THEN conjunct1, rule_format]
  note t2 = signal_total [of unplugged "[]" 0 SerialException,
      THEN conjunct2, THEN conjunct2, THEN conjunct1, rule_format]
  note t3 = signal_total [of "answering [(150, csq_reply ''x'')]"
      "py ''+CSQ: x,0'' @ crlf @ crlf @ py ''OK''" 0 ValueError,
      THEN conjunct2, THEN conjunct2, THEN conjunct2, THEN conjunct1, rule_format]
  note t4 = signal_total [of "answering [(150, py ''OK'' @ crlf)]" "py ''OK''" 0 ValueError,
      THEN conjunct2, THEN conjunct2, THEN conjunct2, THEN conjunct2, THEN conjunct1, rule_format]
  have r1: "fst (get_signal_strength_at_init (answering [(150, csq_reply ''45'')])) =
     (Some 45, Excellent, CheckCheck)"
    using t1 exchange_45 field_45 a by (simp add: l)
  have r0: "fst (get_signal_strength_at_init (answering [(150, csq_reply ''-5'')])) =
     (Some (- 5), Poor, Warning)"
    using t0 exchange_minus_5 field_minus_5 by (simp add: l)
  have ra: "fst (get_signal_strength_at_init (answering [(150, csq_bytes [217, 161, 217, 165])])) =
     (Some 15, Good, Check)"
    using ta exchange_arabic field_arabic by (simp add: l)
  have r2: "fst (get_signal_strength_at_init unplugged) = (None, Error SerialException, Question)"
    by (rule t2 [OF exchange_unplugged])
  have r3: "fst (get_signal_strength_at_init (answering [(150, csq_reply ''x'')])) =
     (None, Error ValueError, Question)"
    using t3 exchange_garbled field_garbled by (simp add: l)
  have r4: "fst (get_signal_strength_at_init (answering [(150, py ''OK'' @ crlf)])) =
     (None, Unknown, Question)"
    using exchange_bare bare_has_no_token by (intro t4) blast
  from r1 r0 ra r2 r3 r4 show ?thesis by blast
qed
section \<open>Properties of the AT channel\<close>







end
